theory Spec2Isabelle
  imports Main "HOL-Library.AList" "HOL-Library.Extended_Nat"
begin

section \<open>The CSP solver of Assignment.py\<close>

text \<open>
  A shallow embedding of the class \<open>CSP\<close> of \<open>Assignment.py\<close>: the constraint store,
  AC-3 (\<open>inference\<close>, \<open>revise\<close>) and the backtracking search.

  Python dictionaries keep their keys in insertion order and the code depends on that
  order (\<open>get_all_arcs\<close>, \<open>min\<close> over \<open>assignment.keys()\<close>), so every dictionary is an
  association list: \<open>map_of\<close> reads a key, \<open>AList.update\<close> is \<open>d[k] = v\<close> (an
  existing key keeps its position, a new key goes to the end).

  Every exception the code can raise is a value (\<open>Inl\<close>) of the result. The loop of
  \<open>inference\<close> and the recursion of \<open>backtrack\<close> take fuel, and \<open>None\<close> means that
  the call has not returned within it; Python's recursion limit is not modelled.
  Strings are lists of characters, one per code point.
\<close>

subsection \<open>Data model\<close>

type_synonym var = string

text \<open>
  The values of a domain. The construction helpers of the file use strings
  (\<open>'red'\<close>, \<open>'5'\<close>); integers stand for every value that is not a sequence. Both are
  immutable, so a value shared between two assignments is never changed in place.
\<close>

datatype val = VInt int | VStr string

text \<open>
  What an assignment holds for a variable. \<open>copy.deepcopy(self.domains)\<close> gives lists;
  \<open>new_assignment[var] = value\<close> in \<open>backtrack\<close> stores the bare value.
\<close>

datatype dom = DList "val list" | DVal val

datatype py_error = KeyError | TypeError | AttributeError | ValueError

type_synonym table = "(val \<times> val) list"
type_synonym arc = "var \<times> var"
type_synonym assignment = "(var \<times> dom) list"

record CSP =
  variables :: "var list"
  domains :: "(var \<times> val list) list"
  constraints :: "(var \<times> (var \<times> table) list) list"
  backtrack_counter :: nat
  backtrack_failure_counter :: nat

text \<open>\<open>CSP.__init__\<close>\<close>

definition init_CSP :: CSP where
  "init_CSP = \<lparr>variables = [], domains = [], constraints = [],
     backtrack_counter = 0, backtrack_failure_counter = 0\<rparr>"

subsection \<open>Python's view of a domain object\<close>

text \<open>\<open>iter(d)\<close>: a list gives its elements, a string its one-character strings, an
  integer raises TypeError.\<close>

fun py_iter :: "dom \<Rightarrow> py_error + val list" where
  "py_iter (DList xs) = Inr xs"
| "py_iter (DVal (VStr s)) = Inr (map (\<lambda>c. VStr [c]) s)"
| "py_iter (DVal (VInt n)) = Inl TypeError"

text \<open>\<open>len(d)\<close>\<close>

fun py_len :: "dom \<Rightarrow> py_error + nat" where
  "py_len (DList xs) = Inr (length xs)"
| "py_len (DVal (VStr s)) = Inr (length s)"
| "py_len (DVal (VInt n)) = Inl TypeError"

text \<open>\<open>not d\<close>: the empty list, the empty string and \<open>0\<close> are false.\<close>

fun py_not :: "dom \<Rightarrow> bool" where
  "py_not (DList xs) = (xs = [])"
| "py_not (DVal (VStr s)) = (s = [])"
| "py_not (DVal (VInt n)) = (n = 0)"

text \<open>\<open>d[k]\<close> on a dictionary\<close>

definition getitem :: "('k \<times> 'v) list \<Rightarrow> 'k \<Rightarrow> py_error + 'v" where
  "getitem d k = (case map_of d k of None \<Rightarrow> Inl KeyError | Some v \<Rightarrow> Inr v)"

subsection \<open>Constraint store\<close>

text \<open>\<open>add_variable\<close>: three unconditional statements.\<close>

definition add_variable :: "CSP \<Rightarrow> var \<Rightarrow> val list \<Rightarrow> CSP" where
  "add_variable self name domain =
     self\<lparr>variables := variables self @ [name],
          domains := AList.update name domain (domains self),
          constraints := AList.update name [] (constraints self)\<rparr>"

text \<open>\<open>get_all_possible_pairs\<close> is \<open>itertools.product(a, b)\<close>; every caller consumes
  the iterator once.\<close>

definition get_all_possible_pairs :: "'a list \<Rightarrow> 'b list \<Rightarrow> ('a \<times> 'b) list" where
  "get_all_possible_pairs a b = List.product a b"

definition get_all_arcs :: "CSP \<Rightarrow> arc list" where
  "get_all_arcs self =
     concat (map (\<lambda>(i, row). map (\<lambda>(j, t). (i, j)) row) (constraints self))"

definition get_all_neighboring_arcs :: "CSP \<Rightarrow> var \<Rightarrow> py_error + arc list" where
  "get_all_neighboring_arcs self v =
     (case getitem (constraints self) v of
        Inl e \<Rightarrow> Inl e
      | Inr row \<Rightarrow> Inr (map (\<lambda>(i, t). (i, v)) row))"

text \<open>\<open>self.constraints[i][j] = t\<close>, with \<open>row\<close> the dictionary \<open>self.constraints[i]\<close>.\<close>

definition set_table :: "CSP \<Rightarrow> var \<Rightarrow> (var \<times> table) list \<Rightarrow> var \<Rightarrow> table \<Rightarrow> CSP" where
  "set_table self i row j t =
     self\<lparr>constraints := AList.update i (AList.update j t row) (constraints self)\<rparr>"

definition add_constraint_one_way ::
  "CSP \<Rightarrow> var \<Rightarrow> var \<Rightarrow> (val \<Rightarrow> val \<Rightarrow> bool) \<Rightarrow> py_error + CSP" where
  "add_constraint_one_way self i j filter_function =
     (case getitem (constraints self) i of
        Inl e \<Rightarrow> Inl e
      | Inr row \<Rightarrow>
          (case map_of row j of
             None \<Rightarrow>
               (case getitem (domains self) i of
                  Inl e \<Rightarrow> Inl e
                | Inr di \<Rightarrow>
                    (case getitem (domains self) j of
                       Inl e \<Rightarrow> Inl e
                     | Inr dj \<Rightarrow>
                         Inr (set_table self i row j
                           (filter (\<lambda>(x, y). filter_function x y)
                              (get_all_possible_pairs di dj)))))
           | Some t \<Rightarrow>
               Inr (set_table self i row j (filter (\<lambda>(x, y). filter_function x y) t))))"

text \<open>The loop of \<open>add_all_different_constraint\<close> over the pairs of \<open>var_list\<close>.\<close>

fun all_different_loop :: "CSP \<Rightarrow> (var \<times> var) list \<Rightarrow> py_error + CSP" where
  "all_different_loop self [] = Inr self"
| "all_different_loop self ((i, j) # ps) =
     (if i \<noteq> j then
        (case add_constraint_one_way self i j (\<lambda>x y. x \<noteq> y) of
           Inl e \<Rightarrow> Inl e
         | Inr self' \<Rightarrow> all_different_loop self' ps)
      else all_different_loop self ps)"

definition add_all_different_constraint :: "CSP \<Rightarrow> var list \<Rightarrow> py_error + CSP" where
  "add_all_different_constraint self var_list =
     all_different_loop self (get_all_possible_pairs var_list var_list)"

subsection \<open>AC-3\<close>

text \<open>
  \<open>not sum(arc in self.constraints[i][j] for arc in arcs)\<close>. The generator looks the
  table up once per arc, so a missing table raises KeyError only when \<open>arcs\<close> is not
  empty.
\<close>

definition no_support :: "CSP \<Rightarrow> var \<Rightarrow> var \<Rightarrow> (val \<times> val) list \<Rightarrow> py_error + bool" where
  "no_support self i j arcs =
     (if arcs = [] then Inr True
      else
        (case getitem (constraints self) i of
           Inl e \<Rightarrow> Inl e
         | Inr row \<Rightarrow>
             (case getitem row j of
                Inl e \<Rightarrow> Inl e
              | Inr t \<Rightarrow>
                  Inr (sum_list (map (\<lambda>arc. if arc \<in> set t then 1 else 0) arcs) = (0::nat)))))"

text \<open>
  The \<open>for x in assignment[i]\<close> loop of \<open>revise\<close>. \<open>d\<close> is the object being iterated,
  which stays \<open>assignment[i]\<close> throughout (the loop never rebinds the key; \<open>remove\<close>
  changes the list in place, so \<open>d\<close> and the assignment are updated together).
  \<open>idx\<close> is the iterator's position: Python's list iterator reads position \<open>idx\<close> of
  the list as it is now and stops when \<open>idx\<close> is no longer below its length.
  \<open>list.remove(x)\<close> deletes the first occurrence; a string has no \<open>remove\<close>.
\<close>

function revise_loop ::
  "CSP \<Rightarrow> assignment \<Rightarrow> var \<Rightarrow> var \<Rightarrow> dom \<Rightarrow> val list \<Rightarrow> nat \<Rightarrow> bool
     \<Rightarrow> py_error + (bool \<times> assignment)" where
  "revise_loop self assignment i j d xs idx revised =
     (if length xs \<le> idx then Inr (revised, assignment)
      else
        (let x = xs ! idx in
         case getitem assignment j of
           Inl e \<Rightarrow> Inl e
         | Inr dj \<Rightarrow>
             (case py_iter dj of
                Inl e \<Rightarrow> Inl e
              | Inr ys \<Rightarrow>
                  (case no_support self i j (get_all_possible_pairs [x] ys) of
                     Inl e \<Rightarrow> Inl e
                   | Inr unsupported \<Rightarrow>
                       if unsupported then
                         (if x \<in> set xs \<and> length xs > 1 then
                            (case d of
                               DList l \<Rightarrow>
                                 revise_loop self
                                   (AList.update i (DList (remove1 x xs)) assignment) i j
                                   (DList (remove1 x xs)) (remove1 x xs) (idx + 1) True
                             | DVal v \<Rightarrow> Inl AttributeError)
                          else revise_loop self assignment i j d xs (idx + 1) True)
                       else revise_loop self assignment i j d xs (idx + 1) revised))))"
  by pat_completeness auto
termination
  by (relation "measure (\<lambda>(self, assignment, i, j, d, xs, idx, revised). length xs - idx)")
     (auto simp: length_remove1)

declare revise_loop.simps [simp del]

definition revise :: "CSP \<Rightarrow> assignment \<Rightarrow> var \<Rightarrow> var \<Rightarrow> py_error + (bool \<times> assignment)" where
  "revise self assignment i j =
     (case getitem assignment i of
        Inl e \<Rightarrow> Inl e
      | Inr d \<Rightarrow>
          (case py_iter d of
             Inl e \<Rightarrow> Inl e
           | Inr xs \<Rightarrow> revise_loop self assignment i j d xs 0 False))"

text \<open>
  \<open>inference\<close>. The \<open>while\<close> loop may run for ever, so the function takes fuel, one
  unit per iteration; \<open>None\<close> is "still running when the fuel ran out". \<open>queue.pop()\<close>
  takes the last arc, \<open>queue.append\<close> adds at the end. The result carries the
  assignment as the loop left it, since the caller's dictionary is changed in place.
\<close>

fun inference ::
  "nat \<Rightarrow> CSP \<Rightarrow> assignment \<Rightarrow> arc list \<Rightarrow> (py_error + (bool \<times> assignment)) option" where
  "inference 0 self assignment queue = None"
| "inference (Suc n) self assignment queue =
     (if length queue = 0 then Some (Inr (True, assignment))
      else
        (let (i, j) = last queue; queue' = butlast queue in
         case revise self assignment i j of
           Inl e \<Rightarrow> Some (Inl e)
         | Inr (revised, assignment') \<Rightarrow>
             if revised = True then
               (case getitem assignment' i of
                  Inl e \<Rightarrow> Some (Inl e)
                | Inr d \<Rightarrow>
                    if py_not d then Some (Inr (False, assignment'))
                    else
                      (case get_all_neighboring_arcs self i of
                         Inl e \<Rightarrow> Some (Inl e)
                       | Inr arcs \<Rightarrow>
                           inference n self assignment'
                             (queue' @ map (\<lambda>(k, u). (k, i)) (filter (\<lambda>(k, u). k \<noteq> j) arcs))))
             else inference n self assignment' queue'))"

subsection \<open>Search driver\<close>

text \<open>
  \<open>select_unassigned_variable\<close>: \<open>min\<close> over the keys with the key function
  \<open>float("inf") if len(assignment[var]) < 2 else len(assignment[var])\<close>. Python's
  \<open>min\<close> keeps the first item unless a later one is strictly smaller, and raises
  ValueError on an empty iterable.
\<close>

definition mrv_key :: "assignment \<Rightarrow> var \<Rightarrow> py_error + enat" where
  "mrv_key assignment v =
     (case getitem assignment v of
        Inl e \<Rightarrow> Inl e
      | Inr d \<Rightarrow>
          (case py_len d of
             Inl e \<Rightarrow> Inl e
           | Inr n \<Rightarrow> Inr (if n < 2 then \<infinity> else enat n)))"

fun py_min :: "('a \<Rightarrow> py_error + enat) \<Rightarrow> 'a \<Rightarrow> enat \<Rightarrow> 'a list \<Rightarrow> py_error + 'a" where
  "py_min key best best_key [] = Inr best"
| "py_min key best best_key (x # xs) =
     (case key x of
        Inl e \<Rightarrow> Inl e
      | Inr k \<Rightarrow>
          if k < best_key then py_min key x k xs else py_min key best best_key xs)"

definition select_unassigned_variable :: "assignment \<Rightarrow> py_error + var" where
  "select_unassigned_variable assignment =
     (case map fst assignment of
        [] \<Rightarrow> Inl ValueError
      | v # vs \<Rightarrow>
          (case mrv_key assignment v of
             Inl e \<Rightarrow> Inl e
           | Inr k \<Rightarrow> py_min (mrv_key assignment) v k vs))"

text \<open>\<open>sum(len(domain) for domain in assignment.values())\<close>\<close>

fun sum_len :: "assignment \<Rightarrow> py_error + nat" where
  "sum_len [] = Inr 0"
| "sum_len ((v, d) # rest) =
     (case py_len d of
        Inl e \<Rightarrow> Inl e
      | Inr n \<Rightarrow> (case sum_len rest of Inl e \<Rightarrow> Inl e | Inr m \<Rightarrow> Inr (n + m)))"

text \<open>What \<open>backtrack\<close> returns: \<open>None\<close> after the loop, or the assignment.\<close>

datatype result = Failure | Solution assignment

text \<open>\<open>if result:\<close> \<^medskip> \<open>None\<close> and the empty dictionary are false.\<close>

fun truthy :: "result \<Rightarrow> bool" where
  "truthy Failure = False"
| "truthy (Solution a) = (a \<noteq> [])"

text \<open>
  The \<open>for value in assignment[var]\<close> loop of \<open>backtrack\<close>, over the values still to be
  tried; \<open>recurse\<close> is the recursive call \<open>self.backtrack\<close> and \<open>infer\<close> is
  \<open>self.inference\<close>, both with the fuel that is left. The counters live in \<open>self\<close>,
  which is threaded through. A deep copy is the value itself.
\<close>

fun backtrack_loop ::
  "(CSP \<Rightarrow> assignment \<Rightarrow> (py_error + (result \<times> CSP)) option)
     \<Rightarrow> (CSP \<Rightarrow> assignment \<Rightarrow> arc list \<Rightarrow> (py_error + (bool \<times> assignment)) option)
     \<Rightarrow> CSP \<Rightarrow> assignment \<Rightarrow> var \<Rightarrow> val list \<Rightarrow> (py_error + (result \<times> CSP)) option" where
  "backtrack_loop recurse infer self assignment v [] =
     Some (Inr (Failure,
       self\<lparr>backtrack_failure_counter := backtrack_failure_counter self + 1\<rparr>))"
| "backtrack_loop recurse infer self assignment v (value # rest) =
     (let new_assignment = AList.update v (DVal value) assignment in
      case infer self new_assignment (get_all_arcs self) of
        None \<Rightarrow> None
      | Some (Inl e) \<Rightarrow> Some (Inl e)
      | Some (Inr (ok, new_assignment')) \<Rightarrow>
          if ok then
            (case recurse (self\<lparr>backtrack_counter := backtrack_counter self + 1\<rparr>)
                    new_assignment' of
               None \<Rightarrow> None
             | Some (Inl e) \<Rightarrow> Some (Inl e)
             | Some (Inr (res, self')) \<Rightarrow>
                 if truthy res then Some (Inr (res, self'))
                 else backtrack_loop recurse infer self' assignment v rest)
          else backtrack_loop recurse infer self assignment v rest)"

text \<open>
  \<open>backtrack\<close>. The fuel bounds the recursion depth and is handed on to every call of
  \<open>inference\<close>; \<open>None\<close> is "did not return within the fuel".
\<close>

primrec backtrack ::
  "nat \<Rightarrow> CSP \<Rightarrow> assignment \<Rightarrow> (py_error + (result \<times> CSP)) option" where
  "backtrack 0 = (\<lambda>self assignment. None)"
| "backtrack (Suc n) = (\<lambda>self assignment.
     (case sum_len assignment of
        Inl e \<Rightarrow> Some (Inl e)
      | Inr s \<Rightarrow>
          if s = length assignment then Some (Inr (Solution assignment, self))
          else
            (case select_unassigned_variable assignment of
               Inl e \<Rightarrow> Some (Inl e)
             | Inr v \<Rightarrow>
                 (case getitem assignment v of
                    Inl e \<Rightarrow> Some (Inl e)
                  | Inr d \<Rightarrow>
                      (case py_iter d of
                         Inl e \<Rightarrow> Some (Inl e)
                       | Inr vals \<Rightarrow>
                           backtrack_loop (backtrack n) (inference n) self assignment v vals)))))"

text \<open>
  \<open>backtracking_search\<close>: the result of the first \<open>inference\<close> is dropped, its changes
  to the assignment are kept.
\<close>

definition backtracking_search :: "nat \<Rightarrow> CSP \<Rightarrow> (py_error + (result \<times> CSP)) option" where
  "backtracking_search n self =
     (let assignment = map (\<lambda>(v, xs). (v, DList xs)) (domains self) in
      case inference n self assignment (get_all_arcs self) of
        None \<Rightarrow> None
      | Some (Inl e) \<Rightarrow> Some (Inl e)
      | Some (Inr (ok, assignment')) \<Rightarrow>
          backtrack n
            (self\<lparr>backtrack_counter := 1, backtrack_failure_counter := 0\<rparr>) assignment')"

subsection \<open>Notions the statements use\<close>

text \<open>The number of values a variable has in an assignment (\<open>0\<close> where \<open>len\<close> raises).\<close>

definition dom_size :: "assignment \<Rightarrow> var \<Rightarrow> nat" where
  "dom_size a v =
     (case getitem a v of
        Inl e \<Rightarrow> 0
      | Inr d \<Rightarrow> (case py_len d of Inl e \<Rightarrow> 0 | Inr n \<Rightarrow> n))"

text \<open>A domain object that Python can iterate: a list or a string.\<close>

definition is_seq :: "dom \<Rightarrow> bool" where
  "is_seq d = (case py_iter d of Inl e \<Rightarrow> False | Inr xs \<Rightarrow> True)"

definition values_of :: "assignment \<Rightarrow> var \<Rightarrow> val list option" where
  "values_of a v =
     (case getitem a v of
        Inl e \<Rightarrow> None
      | Inr d \<Rightarrow> (case py_iter d of Inl e \<Rightarrow> None | Inr xs \<Rightarrow> Some xs))"

text \<open>\<open>self.constraints[i][j]\<close>, when it exists.\<close>

definition table_of :: "CSP \<Rightarrow> var \<Rightarrow> var \<Rightarrow> table option" where
  "table_of self i j =
     (case map_of (constraints self) i of None \<Rightarrow> None | Some row \<Rightarrow> map_of row j)"

text \<open>
  The arc \<open>(i, j)\<close> is consistent in an assignment: both variables have a domain, the
  table exists, and every value of \<open>i\<close> has a compatible value of \<open>j\<close>.
\<close>

definition arc_ok :: "CSP \<Rightarrow> assignment \<Rightarrow> arc \<Rightarrow> bool" where
  "arc_ok self a arc =
     (case values_of a (fst arc) of
        None \<Rightarrow> False
      | Some xs \<Rightarrow>
          (case values_of a (snd arc) of
             None \<Rightarrow> False
           | Some ys \<Rightarrow>
               (case table_of self (fst arc) (snd arc) of
                  None \<Rightarrow> False
                | Some t \<Rightarrow> list_all (\<lambda>x. list_ex (\<lambda>y. (x, y) \<in> set t) ys) xs)))"

definition arc_consistent :: "CSP \<Rightarrow> assignment \<Rightarrow> bool" where
  "arc_consistent self a = list_all (arc_ok self a) (get_all_arcs self)"

text \<open>Every domain of the assignment is true for Python, that is, not empty.\<close>

definition all_nonempty :: "assignment \<Rightarrow> bool" where
  "all_nonempty a = list_all (\<lambda>(v, d). \<not> py_not d) a"

text \<open>The value a decided variable is bound to: the only element of its domain.\<close>

definition assigned :: "assignment \<Rightarrow> var \<Rightarrow> val option" where
  "assigned a v = (case values_of a v of Some [x] \<Rightarrow> Some x | _ \<Rightarrow> None)"

text \<open>
  A solution is consistent: for every arc with a table, the two assigned values are a
  pair of the table.
\<close>

definition pair_ok :: "CSP \<Rightarrow> assignment \<Rightarrow> arc \<Rightarrow> bool" where
  "pair_ok self a arc =
     (case assigned a (fst arc) of
        None \<Rightarrow> False
      | Some x \<Rightarrow>
          (case assigned a (snd arc) of
             None \<Rightarrow> False
           | Some y \<Rightarrow>
               (case table_of self (fst arc) (snd arc) of
                  None \<Rightarrow> False
                | Some t \<Rightarrow> (x, y) \<in> set t)))"

definition consistent :: "CSP \<Rightarrow> assignment \<Rightarrow> bool" where
  "consistent self a = list_all (pair_ok self a) (get_all_arcs self)"

text \<open>The assignment \<open>backtracking_search\<close> starts from: \<open>copy.deepcopy(self.domains)\<close>.\<close>

definition initial_assignment :: "CSP \<Rightarrow> assignment" where
  "initial_assignment self = map (\<lambda>(v, xs). (v, DList xs)) (domains self)"

subsection \<open>Instances\<close>

text \<open>
  Each instance is built through the store's own operations (\<open>_build\<close>) and written
  out as the record those calls produce.

  Two variables with domain \<open>[1]\<close> and a not-equal constraint in both directions.
\<close>

definition unsolvable_build :: "py_error + CSP" where
  "unsolvable_build =
     (case add_constraint_one_way
             (add_variable (add_variable init_CSP ''a'' [VInt 1]) ''b'' [VInt 1])
             ''a'' ''b'' (\<lambda>x y. x \<noteq> y) of
        Inl e \<Rightarrow> Inl e
      | Inr c \<Rightarrow> add_constraint_one_way c ''b'' ''a'' (\<lambda>x y. x \<noteq> y))"

definition unsolvable_csp :: CSP where
  "unsolvable_csp =
     \<lparr>variables = [''a'', ''b''],
      domains = [(''a'', [VInt 1]), (''b'', [VInt 1])],
      constraints = [(''a'', [(''b'', [])]), (''b'', [(''a'', [])])],
      backtrack_counter = 0, backtrack_failure_counter = 0\<rparr>"

text \<open>Three variables with domain \<open>[1]\<close>, all different.\<close>

definition three_ones_build :: "py_error + CSP" where
  "three_ones_build =
     add_all_different_constraint
       (add_variable (add_variable (add_variable init_CSP ''a'' [VInt 1]) ''b'' [VInt 1])
          ''c'' [VInt 1])
       [''a'', ''b'', ''c'']"

definition three_ones :: CSP where
  "three_ones =
     \<lparr>variables = [''a'', ''b'', ''c''],
      domains = [(''a'', [VInt 1]), (''b'', [VInt 1]), (''c'', [VInt 1])],
      constraints =
        [(''a'', [(''b'', []), (''c'', [])]),
         (''b'', [(''a'', []), (''c'', [])]),
         (''c'', [(''a'', []), (''b'', [])])],
      backtrack_counter = 0, backtrack_failure_counter = 0\<rparr>"

definition ones :: assignment where
  "ones = [(''a'', DList [VInt 1]), (''b'', DList [VInt 1]), (''c'', DList [VInt 1])]"

text \<open>
  A Sudoku unit in miniature: three cells, all different, the first two given the same
  digit \<open>'1'\<close>, the third open between \<open>'1'\<close> and \<open>'2'\<close>.
\<close>

definition dup_row_build :: "py_error + CSP" where
  "dup_row_build =
     add_all_different_constraint
       (add_variable
          (add_variable (add_variable init_CSP ''x'' [VStr ''1'']) ''y'' [VStr ''1''])
          ''z'' [VStr ''1'', VStr ''2''])
       [''x'', ''y'', ''z'']"

definition dup_row :: CSP where
  "dup_row =
     \<lparr>variables = [''x'', ''y'', ''z''],
      domains = [(''x'', [VStr ''1'']), (''y'', [VStr ''1'']), (''z'', [VStr ''1'', VStr ''2''])],
      constraints =
        [(''x'', [(''y'', []), (''z'', [(VStr ''1'', VStr ''2'')])]),
         (''y'', [(''x'', []), (''z'', [(VStr ''1'', VStr ''2'')])]),
         (''z'', [(''x'', [(VStr ''2'', VStr ''1'')]), (''y'', [(VStr ''2'', VStr ''1'')])])],
      backtrack_counter = 0, backtrack_failure_counter = 0\<rparr>"

definition dup_row_solution :: assignment where
  "dup_row_solution =
     [(''x'', DList [VStr ''1'']), (''y'', DList [VStr ''1'']), (''z'', DList [VStr ''2''])]"

text \<open>One variable with two colours and no constraint.\<close>

definition one_colour :: CSP where
  "one_colour = add_variable init_CSP ''a'' [VStr ''red'', VStr ''green'']"

text \<open>One variable with two integers and no constraint.\<close>

definition one_number :: CSP where
  "one_number = add_variable init_CSP ''a'' [VInt 1, VInt 2]"

text \<open>Two variables and a constraint added one way only, from \<open>a\<close> to \<open>b\<close>.\<close>

definition one_way_build :: "py_error + CSP" where
  "one_way_build =
     add_constraint_one_way
       (add_variable (add_variable init_CSP ''a'' [VInt 1, VInt 2]) ''b'' [VInt 1, VInt 2])
       ''a'' ''b'' (\<lambda>x y. x \<noteq> y)"

definition one_way_csp :: CSP where
  "one_way_csp =
     \<lparr>variables = [''a'', ''b''],
      domains = [(''a'', [VInt 1, VInt 2]), (''b'', [VInt 1, VInt 2])],
      constraints = [(''a'', [(''b'', [(VInt 1, VInt 2), (VInt 2, VInt 1)])]), (''b'', [])],
      backtrack_counter = 0, backtrack_failure_counter = 0\<rparr>"

text \<open>\<open>a\<close> in \<open>[1, 2]\<close>, \<open>b\<close> in \<open>[1]\<close>, not equal, both directions.\<close>

definition pair_build :: "py_error + CSP" where
  "pair_build =
     (case add_constraint_one_way
             (add_variable (add_variable init_CSP ''a'' [VInt 1, VInt 2]) ''b'' [VInt 1])
             ''a'' ''b'' (\<lambda>x y. x \<noteq> y) of
        Inl e \<Rightarrow> Inl e
      | Inr c \<Rightarrow> add_constraint_one_way c ''b'' ''a'' (\<lambda>x y. x \<noteq> y))"

definition pair_csp :: CSP where
  "pair_csp =
     \<lparr>variables = [''a'', ''b''],
      domains = [(''a'', [VInt 1, VInt 2]), (''b'', [VInt 1])],
      constraints =
        [(''a'', [(''b'', [(VInt 2, VInt 1)])]), (''b'', [(''a'', [(VInt 1, VInt 2)])])],
      backtrack_counter = 0, backtrack_failure_counter = 0\<rparr>"

definition pair_start :: assignment where
  "pair_start = [(''a'', DList [VInt 1, VInt 2]), (''b'', DList [VInt 1])]"

definition pair_pruned :: assignment where
  "pair_pruned = [(''a'', DList [VInt 2]), (''b'', DList [VInt 1])]"

text \<open>An assignment with domains of sizes 3, 2, 1 and 2.\<close>

definition mixed_sizes :: assignment where
  "mixed_sizes =
     [(''p'', DList [VInt 1, VInt 2, VInt 3]), (''q'', DList [VInt 1, VInt 2]),
      (''r'', DList [VInt 1]), (''s'', DList [VInt 3, VInt 4])]"

section \<open>Properties\<close>

subsection \<open>The instances are what the store builds\<close>

lemma unsolvable_build_eq: "unsolvable_build = Inr unsolvable_csp"
  by code_simp

lemma three_ones_build_eq: "three_ones_build = Inr three_ones"
  by code_simp

lemma dup_row_build_eq: "dup_row_build = Inr dup_row"
  by code_simp

lemma one_way_build_eq: "one_way_build = Inr one_way_csp"
  by code_simp

lemma pair_build_eq: "pair_build = Inr pair_csp"
  by code_simp

subsection \<open>More fuel never changes a result\<close>

lemma inference_fuel_mono:
  "inference n self a q = Some r \<Longrightarrow> inference (n + k) self a q = Some r"
proof (induction n arbitrary: a q)
  case 0
  then show ?case by simp
next
  case (Suc n)
  then show ?case
    by (auto simp: Let_def split: prod.splits sum.splits if_splits)
qed

lemma backtrack_loop_mono:
  assumes "\<And>s a r. recurse1 s a = Some r \<Longrightarrow> recurse2 s a = Some r"
    and "\<And>s a q r. infer1 s a q = Some r \<Longrightarrow> infer2 s a q = Some r"
  shows "backtrack_loop recurse1 infer1 self a v vals = Some r \<Longrightarrow>
         backtrack_loop recurse2 infer2 self a v vals = Some r"
proof (induction vals arbitrary: self)
  case Nil
  then show ?case by simp
next
  case (Cons x xs)
  show ?case
  proof (cases "infer1 self (AList.update v (DVal x) a) (get_all_arcs self)")
    case None
    with Cons.prems show ?thesis by (simp add: Let_def)
  next
    case (Some ir)
    note i2 = assms(2)[OF Some]
    show ?thesis
    proof (cases ir)
      case (Inl e)
      with Cons.prems Some i2 show ?thesis by (simp add: Let_def)
    next
      case (Inr p)
      obtain ok a' where p: "p = (ok, a')" by (cases p)
      show ?thesis
      proof (cases ok)
        case False
        with Cons Some i2 Inr p show ?thesis by (simp add: Let_def)
      next
        case True
        show ?thesis
        proof (cases "recurse1 (self\<lparr>backtrack_counter := backtrack_counter self + 1\<rparr>) a'")
          case None
          with Cons.prems Some Inr p True show ?thesis by (simp add: Let_def)
        next
          case (Some rr)
          note r2 = assms(1)[OF Some]
          from Cons.prems \<open>infer1 self (AList.update v (DVal x) a) (get_all_arcs self) = Some ir\<close>
            i2 Inr p True Some r2 Cons.IH
          show ?thesis
            by (auto simp: Let_def split: sum.splits prod.splits if_splits)
        qed
      qed
    qed
  qed
qed

lemma backtrack_fuel_mono:
  "backtrack n self a = Some r \<Longrightarrow> backtrack (n + k) self a = Some r"
proof (induction n arbitrary: self a r)
  case 0
  then show ?case by simp
next
  case (Suc n)
  have step: "\<And>v vals. backtrack_loop (backtrack n) (inference n) self a v vals = Some r \<Longrightarrow>
      backtrack_loop (backtrack (n + k)) (inference (n + k)) self a v vals = Some r"
    by (rule backtrack_loop_mono[where ?recurse1.0 = "backtrack n" and ?infer1.0 = "inference n"])
       (auto intro: Suc.IH inference_fuel_mono)
  from Suc.prems show ?case
    by (auto split: sum.splits if_splits intro: step)
qed

lemma backtracking_search_fuel_mono:
  assumes "backtracking_search n self = Some r"
  shows "backtracking_search (n + k) self = Some r"
proof (cases "inference n self (map (\<lambda>(v, xs). (v, DList xs)) (domains self)) (get_all_arcs self)")
  case None
  with assms show ?thesis by (simp add: backtracking_search_def)
next
  case (Some ir)
  note m = inference_fuel_mono[OF Some, of k]
  from assms Some m show ?thesis
    by (auto simp: backtracking_search_def split: sum.splits prod.splits
        intro: backtrack_fuel_mono)
qed


subsection \<open>Registering a variable twice\<close>

text \<open>
  Claim C10. \<open>add_variable\<close> has no failure branch (its result is a store, not an error).
  Called with a name that is already registered, it appends the name once more to the
  variable list, so the list holds it twice, and the name's domain and row of outgoing
  constraint tables are the new domain and an empty row; what was stored before for that
  name is gone, and every other name keeps what it had.
\<close>

theorem add_variable_duplicate:
  assumes "name \<in> set (variables self)"
  shows "variables (add_variable self name domain) = variables self @ [name]
    \<and> \<not> distinct (variables (add_variable self name domain))
    \<and> getitem (domains (add_variable self name domain)) name = Inr domain
    \<and> getitem (constraints (add_variable self name domain)) name = Inr []
    \<and> (\<forall>v. v \<noteq> name \<longrightarrow>
          getitem (domains (add_variable self name domain)) v = getitem (domains self) v
        \<and> getitem (constraints (add_variable self name domain)) v
            = getitem (constraints self) v)"
  using assms by (simp add: add_variable_def getitem_def update_conv')

theorem add_variable_duplicate_witness:
  "variables (add_variable (add_variable init_CSP ''a'' [VInt 1]) ''a'' [VInt 2]) = [''a'', ''a'']
   \<and> getitem (domains (add_variable (add_variable init_CSP ''a'' [VInt 1]) ''a'' [VInt 2])) ''a''
       = Inr [VInt 2]
   \<and> getitem (constraints (add_variable one_way_csp ''a'' [VInt 2])) ''a'' = Inr []
   \<and> table_of one_way_csp ''a'' ''b'' = Some [(VInt 1, VInt 2), (VInt 2, VInt 1)]
   \<and> table_of (add_variable one_way_csp ''a'' [VInt 2]) ''a'' ''b'' = None"
proof -
  have h1: "''a'' \<in> set (variables (add_variable init_CSP ''a'' [VInt 1]))"
    by (simp add: add_variable_def init_CSP_def)
  have h2: "''a'' \<in> set (variables one_way_csp)"
    by (simp add: one_way_csp_def)
  have t: "table_of one_way_csp ''a'' ''b'' = Some [(VInt 1, VInt 2), (VInt 2, VInt 1)]"
    "table_of (add_variable one_way_csp ''a'' [VInt 2]) ''a'' ''b'' = None"
    by (simp_all add: table_of_def one_way_csp_def add_variable_def)
  from add_variable_duplicate[OF h1, of "[VInt 2]"] add_variable_duplicate[OF h2, of "[VInt 2]"] t
  show ?thesis
    by (simp add: add_variable_def init_CSP_def)
qed

subsection \<open>An unsolvable instance\<close>

lemma unsolvable_search_3:
  "backtracking_search 3 unsolvable_csp =
     Some (Inr (Solution [(''a'', DList [VInt 1]), (''b'', DList [VInt 1])],
                unsolvable_csp\<lparr>backtrack_counter := 1, backtrack_failure_counter := 0\<rparr>))"
  by code_simp

text \<open>
  Claim C2. Two variables with domain \<open>[1]\<close> and a not-equal constraint in both
  directions: the claim asks for the failure value. With any fuel from 3 on, the search
  returns the assignment that binds both variables to \<open>1\<close>: \<open>revise\<close> finds \<open>1\<close>
  without support but does not remove the last value of a domain, so no domain empties,
  and \<open>backtrack\<close> accepts the assignment because the domain sizes add up to the number
  of variables.
\<close>

theorem unsolvable_returns_assignment:
  "unsolvable_build = Inr unsolvable_csp \<and>
   backtracking_search (3 + k) unsolvable_csp =
     Some (Inr (Solution [(''a'', DList [VInt 1]), (''b'', DList [VInt 1])],
                unsolvable_csp\<lparr>backtrack_counter := 1, backtrack_failure_counter := 0\<rparr>))"
  using backtracking_search_fuel_mono[OF unsolvable_search_3, of k] unsolvable_build_eq
  by simp

subsection \<open>A returned assignment that breaks a constraint\<close>

lemma dup_row_search_10:
  "backtracking_search 10 dup_row =
     Some (Inr (Solution dup_row_solution,
                dup_row\<lparr>backtrack_counter := 1, backtrack_failure_counter := 0\<rparr>))"
  by code_simp

lemma dup_row_violation:
  "assigned dup_row_solution ''x'' = Some (VStr ''1'')"
  "assigned dup_row_solution ''y'' = Some (VStr ''1'')"
  "table_of dup_row ''x'' ''y'' = Some []"
  "(''x'', ''y'') \<in> set (get_all_arcs dup_row)"
  "\<not> consistent dup_row dup_row_solution"
  by code_simp+

text \<open>
  Claim C1. Every returned assignment should satisfy every constraint table. On three
  cells that must differ, two of them given the same digit, the search returns (with any
  fuel from 10 on) an assignment that binds \<open>x\<close> and \<open>y\<close> both to \<open>'1'\<close>, while the
  table of the arc \<open>(x, y)\<close> is empty.
\<close>

theorem dup_row_inconsistent_solution:
  "dup_row_build = Inr dup_row \<and>
   backtracking_search (10 + k) dup_row =
     Some (Inr (Solution dup_row_solution,
                dup_row\<lparr>backtrack_counter := 1, backtrack_failure_counter := 0\<rparr>)) \<and>
   (''x'', ''y'') \<in> set (get_all_arcs dup_row) \<and>
   assigned dup_row_solution ''x'' = Some (VStr ''1'') \<and>
   assigned dup_row_solution ''y'' = Some (VStr ''1'') \<and>
   table_of dup_row ''x'' ''y'' = Some [] \<and>
   \<not> consistent dup_row dup_row_solution"
  using backtracking_search_fuel_mono[OF dup_row_search_10, of k] dup_row_build_eq
    dup_row_violation
  by simp

subsection \<open>The branch assignment\<close>

lemma one_colour_search_3:
  "backtracking_search 3 one_colour =
     Some (Inr (Solution [(''a'', DVal (VStr ''r''))],
                one_colour\<lparr>backtrack_counter := 3, backtrack_failure_counter := 0\<rparr>))"
  by code_simp

lemma one_number_search_2:
  "backtracking_search 2 one_number = Some (Inl TypeError)"
  by code_simp

text \<open>
  Claim C4. The branch should bind the selected variable to the one-element list of the
  candidate. \<open>backtrack\<close> stores the candidate itself. With one variable and the
  colours \<open>'red'\<close> and \<open>'green'\<close> the branch holds the string \<open>'red'\<close>, which Python
  reads as a domain of three values, and the search returns the variable bound to
  \<open>'r'\<close>; with the integers \<open>1\<close> and \<open>2\<close> the branch holds \<open>1\<close> and \<open>len\<close> raises
  TypeError.
\<close>

theorem branch_binds_bare_value:
  "backtracking_search (3 + k) one_colour =
     Some (Inr (Solution [(''a'', DVal (VStr ''r''))],
                one_colour\<lparr>backtrack_counter := 3, backtrack_failure_counter := 0\<rparr>)) \<and>
   backtracking_search (2 + k) one_number = Some (Inl TypeError)"
  using backtracking_search_fuel_mono[OF one_colour_search_3, of k]
    backtracking_search_fuel_mono[OF one_number_search_2, of k]
  by simp

subsection \<open>A queue that never empties\<close>

lemma three_ones_arcs:
  "get_all_arcs three_ones =
     [(''a'', ''b''), (''a'', ''c''), (''b'', ''a''), (''b'', ''c''), (''c'', ''a'')]
       @ [(''c'', ''b'')]"
  by code_simp

lemma three_ones_initial: "initial_assignment three_ones = ones"
  by code_simp

lemma three_ones_revise:
  "revise three_ones ones ''c'' ''b'' = Inr (True, ones)"
  "revise three_ones ones ''a'' ''c'' = Inr (True, ones)"
  "revise three_ones ones ''b'' ''a'' = Inr (True, ones)"
  by code_simp+

lemma three_ones_neighbors:
  "get_all_neighboring_arcs three_ones ''c'' = Inr [(''a'', ''c''), (''b'', ''c'')]"
  "get_all_neighboring_arcs three_ones ''a'' = Inr [(''b'', ''a''), (''c'', ''a'')]"
  "get_all_neighboring_arcs three_ones ''b'' = Inr [(''a'', ''b''), (''c'', ''b'')]"
  by code_simp+

lemma three_ones_getitem:
  "getitem ones ''a'' = Inr (DList [VInt 1])"
  "getitem ones ''b'' = Inr (DList [VInt 1])"
  "getitem ones ''c'' = Inr (DList [VInt 1])"
  by code_simp+

text \<open>
  The last arc of the queue goes round \<open>(c, b)\<close>, \<open>(a, c)\<close>, \<open>(b, a)\<close>: each \<open>revise\<close>
  returns true without changing the assignment, and exactly one arc is put back.
\<close>

lemma three_ones_cycle:
  "inference n three_ones ones (q @ [(''c'', ''b'')]) = None \<and>
   inference n three_ones ones (q @ [(''a'', ''c'')]) = None \<and>
   inference n three_ones ones (q @ [(''b'', ''a'')]) = None"
proof (induction n)
  case 0
  show ?case by simp
next
  case (Suc n)
  then show ?case
    by (simp add: three_ones_revise three_ones_neighbors three_ones_getitem)
qed

text \<open>
  Claim C3. \<open>inference\<close> should terminate on every assignment and every finite queue.
  On three variables with domain \<open>[1]\<close> that must all differ, started from the store's
  own domains and the full arc set as \<open>backtracking_search\<close> does, the loop is still
  running after any number of iterations, and so is the search.
\<close>

theorem inference_loops:
  "three_ones_build = Inr three_ones \<and>
   inference n three_ones (initial_assignment three_ones) (get_all_arcs three_ones) = None \<and>
   backtracking_search n three_ones = None"
proof -
  have "inference n three_ones ones (get_all_arcs three_ones) = None"
    unfolding three_ones_arcs by (rule three_ones_cycle[THEN conjunct1])
  then show ?thesis
    by (simp add: three_ones_build_eq three_ones_initial backtracking_search_def
        initial_assignment_def[symmetric])
qed

subsection \<open>One pass of \<open>revise\<close>\<close>

lemma revise_loop_cases:
  assumes "revise_loop self a i j d xs idx rv = Inr res"
  obtains
    (stop) "length xs \<le> idx" "res = (rv, a)"
  | (keep) dj ys where "idx < length xs" "getitem a j = Inr dj" "py_iter dj = Inr ys"
      "no_support self i j (get_all_possible_pairs [xs ! idx] ys) = Inr False"
      "revise_loop self a i j d xs (idx + 1) rv = Inr res"
  | (flag) dj ys where "idx < length xs" "getitem a j = Inr dj" "py_iter dj = Inr ys"
      "no_support self i j (get_all_possible_pairs [xs ! idx] ys) = Inr True"
      "length xs \<le> 1"
      "revise_loop self a i j d xs (idx + 1) True = Inr res"
  | (remove) dj ys l where "idx < length xs" "getitem a j = Inr dj" "py_iter dj = Inr ys"
      "no_support self i j (get_all_possible_pairs [xs ! idx] ys) = Inr True"
      "1 < length xs" "d = DList l"
      "revise_loop self (AList.update i (DList (remove1 (xs ! idx) xs)) a) i j
         (DList (remove1 (xs ! idx) xs)) (remove1 (xs ! idx) xs) (idx + 1) True = Inr res"
proof (cases "length xs \<le> idx")
  case True
  with assms have "res = (rv, a)"
    by (simp add: revise_loop.simps[of self a i j d xs idx rv])
  with True show ?thesis by (rule stop)
next
  case False
  note unf = assms[unfolded revise_loop.simps[of self a i j d xs idx rv]]
  from False have lt: "idx < length xs" by simp
  then have mem: "xs ! idx \<in> set xs" by simp
  from unf False obtain dj where dj: "getitem a j = Inr dj"
    by (cases "getitem a j") (simp_all add: Let_def)
  from unf False dj obtain ys where ys: "py_iter dj = Inr ys"
    by (cases "py_iter dj") (simp_all add: Let_def)
  from unf False dj ys obtain u
    where u: "no_support self i j (get_all_possible_pairs [xs ! idx] ys) = Inr u"
    by (cases "no_support self i j (get_all_possible_pairs [xs ! idx] ys)")
       (simp_all add: Let_def)
  show ?thesis
  proof (cases u)
    case False
    with unf lt dj ys u have "revise_loop self a i j d xs (idx + 1) rv = Inr res"
      by (simp add: Let_def)
    with lt dj ys u False show ?thesis by (auto intro: keep)
  next
    case True
    note uT = this
    show ?thesis
    proof (cases "1 < length xs")
      case False
      with unf lt dj ys u uT have "revise_loop self a i j d xs (idx + 1) True = Inr res"
        by (simp add: Let_def)
      with lt dj ys u uT False show ?thesis by (auto intro: flag)
    next
      case True
      with unf lt dj ys u uT mem obtain l where l: "d = DList l"
        by (cases d) (simp_all add: Let_def)
      with unf lt dj ys u uT mem True
      have "revise_loop self (AList.update i (DList (remove1 (xs ! idx) xs)) a) i j
         (DList (remove1 (xs ! idx) xs)) (remove1 (xs ! idx) xs) (idx + 1) True = Inr res"
        by (simp add: Let_def)
      with lt dj ys u uT True l show ?thesis by (auto intro: remove)
    qed
  qed
qed

text \<open>What one run of the loop does to the assignment.\<close>

lemma revise_loop_effect:
  "revise_loop self a i j d xs idx rv = Inr (r, a') \<Longrightarrow>
   \<exists>xs'. (a' = a \<and> xs' = xs
           \<or> a' = AList.update i (DList xs') a \<and> length xs' < length xs \<and> 1 < length xs \<and> r)
     \<and> (xs \<noteq> [] \<longrightarrow> xs' \<noteq> [])
     \<and> (rv \<longrightarrow> r)
     \<and> (r \<and> \<not> rv \<and> 1 < length xs \<longrightarrow> length xs' < length xs)"
proof (induction "length xs - idx" arbitrary: a xs d idx rv rule: less_induct)
  case less
  from less.prems show ?case
  proof (cases rule: revise_loop_cases)
    case stop
    then show ?thesis by auto
  next
    case (keep dj ys)
    from keep(1) have "length xs - (idx + 1) < length xs - idx" by simp
    from less.hyps[OF this keep(5)] show ?thesis by auto
  next
    case (flag dj ys)
    from flag(1) have "length xs - (idx + 1) < length xs - idx" by simp
    from less.hyps[OF this flag(6)] flag(5) show ?thesis by auto
  next
    case (remove dj ys l)
    let ?ys = "remove1 (xs ! idx) xs"
    from remove(1) have mem: "xs ! idx \<in> set xs" by simp
    then have len: "length ?ys = length xs - 1" by (simp add: length_remove1)
    with remove(1,5) have "length ?ys - (idx + 1) < length xs - idx" by simp
    from less.hyps[OF this remove(7)] obtain xs' where
      h: "a' = AList.update i (DList ?ys) a \<and> xs' = ?ys
           \<or> a' = AList.update i (DList xs') (AList.update i (DList ?ys) a)
               \<and> length xs' < length ?ys \<and> 1 < length ?ys \<and> r"
      "?ys \<noteq> [] \<longrightarrow> xs' \<noteq> []" "r"
      by auto
    from remove(5) len have ne: "?ys \<noteq> []" by auto
    from h len remove(5) ne show ?thesis
      by (intro exI[of _ xs']) auto
  qed
qed


lemma revise_loop_string:
  "revise_loop self a i j (DVal v) xs idx rv = Inr (r, a') \<Longrightarrow>
   a' = a \<and> (rv \<longrightarrow> r) \<and> (r \<and> \<not> rv \<longrightarrow> length xs \<le> 1)"
proof (induction "length xs - idx" arbitrary: idx rv rule: less_induct)
  case less
  from less.prems show ?case
  proof (cases rule: revise_loop_cases)
    case stop
    then show ?thesis by auto
  next
    case (keep dj ys)
    from keep(1) have "length xs - (idx + 1) < length xs - idx" by simp
    from less.hyps[OF this keep(5)] show ?thesis by auto
  next
    case (flag dj ys)
    from flag(1) have "length xs - (idx + 1) < length xs - idx" by simp
    from less.hyps[OF this flag(6)] flag(5) show ?thesis by auto
  next
    case (remove dj ys l)
    then show ?thesis by simp
  qed
qed

lemma revise_cases:
  assumes "revise self a i j = Inr (r, a')"
  obtains
    (list) xs where "getitem a i = Inr (DList xs)"
      "revise_loop self a i j (DList xs) xs 0 False = Inr (r, a')"
  | (string) s where "getitem a i = Inr (DVal (VStr s))"
      "revise_loop self a i j (DVal (VStr s)) (map (\<lambda>c. VStr [c]) s) 0 False = Inr (r, a')"
proof -
  from assms obtain d where d: "getitem a i = Inr d"
    by (cases "getitem a i") (simp_all add: revise_def)
  show ?thesis
  proof (cases d)
    case (DList xs)
    with assms d show ?thesis by (auto simp: revise_def intro: list)
  next
    case (DVal v)
    with assms d show ?thesis by (cases v) (auto simp: revise_def intro: string)
  qed
qed

lemma dom_size_list: "getitem a i = Inr (DList xs) \<Longrightarrow> dom_size a i = length xs"
  by (simp add: dom_size_def)

lemma dom_size_string: "getitem a i = Inr (DVal (VStr s)) \<Longrightarrow> dom_size a i = length s"
  by (simp add: dom_size_def)

lemma getitem_update: "getitem (AList.update k v al) k = Inr v"
  by (simp add: getitem_def update_conv')

text \<open>What \<open>revise\<close> does to the assignment: nothing, or the domain of \<open>i\<close> becomes a
  shorter, non-empty list.\<close>

lemma revise_effect:
  assumes "revise self a i j = Inr (r, a')"
  shows "a' = a \<and> (r \<longrightarrow> dom_size a i \<le> 1)
     \<or> (\<exists>xs'. a' = AList.update i (DList xs') a \<and> xs' \<noteq> [] \<and> length xs' < dom_size a i
            \<and> 1 < dom_size a i \<and> r)"
  using assms
proof (cases rule: revise_cases)
  case (list xs)
  from revise_loop_effect[OF list(2)] dom_size_list[OF list(1)] show ?thesis
    by auto
next
  case (string s)
  from revise_loop_string[OF string(2)] dom_size_string[OF string(1)] show ?thesis
    by auto
qed



lemma pair_revise: "revise pair_csp pair_start ''a'' ''b'' = Inr (True, pair_pruned)"
  by code_simp



subsection \<open>No domain empties\<close>

lemma list_all_update:
  "list_all P al \<Longrightarrow> P (k, v) \<Longrightarrow> list_all P (AList.update k v al)"
  by (induction al) auto

lemma getitem_mem: "getitem al k = Inr v \<Longrightarrow> (k, v) \<in> set al"
  by (auto simp: getitem_def split: option.splits dest: map_of_SomeD)

lemma revise_nonempty:
  assumes "all_nonempty a" and "revise self a i j = Inr (r, a')"
  shows "all_nonempty a'"
  using revise_effect[OF assms(2)] assms(1)
  by (auto simp: all_nonempty_def intro: list_all_update)

lemma inference_nonempty:
  "all_nonempty a \<Longrightarrow> inference n self a q = Some (Inr (ok, a')) \<Longrightarrow> ok \<and> all_nonempty a'"
proof (induction n arbitrary: a q)
  case 0
  then show ?case by simp
next
  case (Suc n)
  show ?case
  proof (cases "length q = 0")
    case True
    with Suc.prems show ?thesis by simp
  next
    case False
    obtain i j where ij: "last q = (i, j)" by (cases "last q")
    from Suc.prems(2) False ij obtain rv a1 where rv: "revise self a i j = Inr (rv, a1)"
      by (cases "revise self a i j") (auto simp: Let_def)
    note ne = revise_nonempty[OF Suc.prems(1) rv]
    show ?thesis
    proof (cases rv)
      case False
      with Suc.prems(2) \<open>length q \<noteq> 0\<close> ij rv
      have "inference n self a1 (butlast q) = Some (Inr (ok, a'))" by (simp add: Let_def)
      from Suc.IH[OF ne this] show ?thesis .
    next
      case True
      from Suc.prems(2) \<open>length q \<noteq> 0\<close> ij rv True obtain d where d: "getitem a1 i = Inr d"
        by (cases "getitem a1 i") (auto simp: Let_def)
      from getitem_mem[OF d] ne have nd: "\<not> py_not d"
        by (auto simp: all_nonempty_def list_all_iff)
      from Suc.prems(2) \<open>length q \<noteq> 0\<close> ij rv True d nd obtain arcs where
        arcs: "get_all_neighboring_arcs self i = Inr arcs"
        by (cases "get_all_neighboring_arcs self i") (auto simp: Let_def)
      with Suc.prems(2) \<open>length q \<noteq> 0\<close> ij rv True d nd
      have "inference n self a1
           (butlast q @ map (\<lambda>(k, u). (k, i)) (filter (\<lambda>(k, u). k \<noteq> j) arcs))
         = Some (Inr (ok, a'))"
        by (simp add: Let_def)
      from Suc.IH[OF ne this] show ?thesis .
    qed
  qed
qed

text \<open>
  Claim C7. When every domain of the assignment is non-empty on entry, \<open>revise\<close>
  leaves every domain non-empty and changes the assignment only when the domain of \<open>i\<close>
  had more than one element; and whenever \<open>inference\<close> returns, on any queue and
  with any fuel, it returns true with every domain still non-empty: its
  \<open>return False\<close> is never reached.
\<close>

theorem propagation_keeps_domains_nonempty:
  assumes "all_nonempty a"
  shows "(revise self a i j = Inr (r, a') \<longrightarrow>
            all_nonempty a' \<and> (a' \<noteq> a \<longrightarrow> 1 < dom_size a i))
     \<and> (inference n self a q = Some (Inr (ok, a'')) \<longrightarrow> ok \<and> all_nonempty a'')"
proof (intro conjI impI)
  assume rv: "revise self a i j = Inr (r, a')"
  from revise_nonempty[OF assms rv] show "all_nonempty a'" .
  assume "a' \<noteq> a"
  with revise_effect[OF rv] show "1 < dom_size a i" by auto
next
  assume inf: "inference n self a q = Some (Inr (ok, a''))"
  from inference_nonempty[OF assms inf] show "ok" and "all_nonempty a''" by simp_all
qed

lemma pair_inference:
  "inference 4 pair_csp pair_start (get_all_arcs pair_csp) = Some (Inr (True, pair_pruned))"
  by code_simp

lemma pair_start_nonempty: "all_nonempty pair_start"
  by code_simp

theorem propagation_keeps_domains_nonempty_witness:
  "all_nonempty pair_start
   \<and> revise pair_csp pair_start ''a'' ''b'' = Inr (True, pair_pruned)
   \<and> inference 4 pair_csp pair_start (get_all_arcs pair_csp) = Some (Inr (True, pair_pruned))
   \<and> all_nonempty pair_pruned \<and> 1 < dom_size pair_start ''a''"
proof -
  have ne: "pair_pruned \<noteq> pair_start" by (simp add: pair_pruned_def pair_start_def)
  from propagation_keeps_domains_nonempty[OF pair_start_nonempty,
      of pair_csp "''a''" "''b''" True pair_pruned 4 "get_all_arcs pair_csp" True pair_pruned]
    pair_revise pair_inference pair_start_nonempty ne
  show ?thesis by simp
qed

subsection \<open>Arc-consistent assignments\<close>

lemma no_support_False:
  assumes "table_of self i j = Some t" and "y \<in> set ys" and "(x, y) \<in> set t"
  shows "no_support self i j (get_all_possible_pairs [x] ys) = Inr False"
proof -
  from assms(1) obtain row where row: "getitem (constraints self) i = Inr row"
    and t: "getitem row j = Inr t"
    by (auto simp: table_of_def getitem_def split: option.splits)
  from assms(2) have ne: "get_all_possible_pairs [x] ys \<noteq> []"
    by (auto simp: get_all_possible_pairs_def)
  from assms(2,3) have "(x, y) \<in> set (get_all_possible_pairs [x] ys) \<and> (x, y) \<in> set t"
    by (auto simp: get_all_possible_pairs_def)
  then have "sum_list (map (\<lambda>arc. if arc \<in> set t then 1 else 0) (get_all_possible_pairs [x] ys))
      \<noteq> (0::nat)"
    by (auto simp: sum_list_eq_0_iff)
  with row t ne show ?thesis by (simp add: no_support_def)
qed

lemma revise_loop_supported:
  assumes "getitem a j = Inr dj" and "py_iter dj = Inr ys" and "table_of self i j = Some t"
    and "\<forall>x\<in>set xs. \<exists>y\<in>set ys. (x, y) \<in> set t"
  shows "revise_loop self a i j d xs idx rv = Inr (rv, a)"
proof (induction "length xs - idx" arbitrary: idx rule: less_induct)
  case less
  show ?case
  proof (cases "length xs \<le> idx")
    case True
    then show ?thesis by (simp add: revise_loop.simps[of self a i j d xs idx rv])
  next
    case False
    then have "xs ! idx \<in> set xs" by simp
    with assms(4) obtain y where "y \<in> set ys" "(xs ! idx, y) \<in> set t" by blast
    from no_support_False[OF assms(3) this]
    have ns: "no_support self i j (get_all_possible_pairs [xs ! idx] ys) = Inr False" .
    from False have "length xs - (idx + 1) < length xs - idx" by simp
    from less.hyps[OF this] have "revise_loop self a i j d xs (idx + 1) rv = Inr (rv, a)" .
    then show ?thesis
      by (subst revise_loop.simps) (simp add: False assms(1,2) ns Let_def)
  qed
qed

lemma revise_arc_ok:
  assumes "arc_ok self a (i, j)"
  shows "revise self a i j = Inr (False, a)"
proof -
  from assms obtain xs ys t where xs: "values_of a i = Some xs" and ys: "values_of a j = Some ys"
    and t: "table_of self i j = Some t"
    and sup: "\<forall>x\<in>set xs. \<exists>y\<in>set ys. (x, y) \<in> set t"
    by (auto simp: arc_ok_def list_all_iff list_ex_iff split: option.splits)
  from xs obtain d where d: "getitem a i = Inr d" "py_iter d = Inr xs"
    by (auto simp: values_of_def split: sum.splits)
  from ys obtain dj where dj: "getitem a j = Inr dj" "py_iter dj = Inr ys"
    by (auto simp: values_of_def split: sum.splits)
  from revise_loop_supported[OF dj t sup] d show ?thesis
    by (simp add: revise_def)
qed

lemma inference_arcs_ok:
  "list_all (arc_ok self a) q \<Longrightarrow>
   inference (Suc (length q) + k) self a q = Some (Inr (True, a))"
proof (induction q rule: rev_induct)
  case Nil
  show ?case by simp
next
  case (snoc arc q)
  obtain i j where arc: "arc = (i, j)" by (cases arc)
  from snoc.prems arc have "revise self a i j = Inr (False, a)"
    by (auto intro: revise_arc_ok)
  moreover from snoc have "inference (Suc (length q) + k) self a q = Some (Inr (True, a))"
    by simp
  ultimately show ?case using arc by simp
qed

text \<open>
  Claim C9. On an arc-consistent assignment, \<open>inference\<close> with the full arc set of
  \<open>get_all_arcs\<close> returns true and the assignment is unchanged. One iteration per
  arc and one more to see the empty queue are enough, and more fuel gives the same.
\<close>

theorem inference_idempotent:
  assumes "arc_consistent self a"
  shows "inference (Suc (length (get_all_arcs self)) + k) self a (get_all_arcs self)
           = Some (Inr (True, a))"
  using assms unfolding arc_consistent_def by (rule inference_arcs_ok)

lemma pair_pruned_consistent: "arc_consistent pair_csp pair_pruned"
  by code_simp

theorem inference_idempotent_witness:
  "arc_consistent pair_csp pair_pruned
   \<and> inference (Suc (length (get_all_arcs pair_csp)) + 0) pair_csp pair_pruned
        (get_all_arcs pair_csp) = Some (Inr (True, pair_pruned))"
  using inference_idempotent[OF pair_pruned_consistent, of 0] pair_pruned_consistent
  by simp

subsection \<open>Neighbouring arcs\<close>

lemma arcs_of_row:
  assumes "distinct (map fst (constraints self))" and "getitem (constraints self) i = Inr row"
  shows "(i, k) \<in> set (get_all_arcs self) \<longleftrightarrow> k \<in> fst ` set row"
proof -
  from assms(2) have m: "map_of (constraints self) i = Some row"
    by (simp add: getitem_def split: option.splits)
  have "(i, row') \<in> set (constraints self) \<longleftrightarrow> row' = row" for row'
    using map_of_eq_Some_iff[OF assms(1), of i row'] m by auto
  then show ?thesis
    by (force simp: get_all_arcs_def)
qed

lemma revise_changed:
  assumes "revise self a i j = Inr (r, a')" and "a' \<noteq> a"
  shows "r \<and> (\<exists>xs'. getitem a' i = Inr (DList xs') \<and> xs' \<noteq> [])"
  using revise_effect[OF assms(1)] assms(2) by (auto simp: getitem_update)

text \<open>
  Claim C6, amended. The claim reads: \<open>get_all_neighboring_arcs(var)\<close> returns the pairs
  \<open>(k, var)\<close> for which the arc \<open>(k, var)\<close> has a table. What holds, for a variable
  that has a row in the store: it returns the pairs \<open>(k, var)\<close> for which the arc
  \<open>(var, k)\<close> has a table, the variable's outgoing arcs reversed. These are the arcs
  into the variable when every arc out of it has its reverse and conversely. When
  \<open>revise\<close> narrows the domain of \<open>i\<close>, \<open>inference\<close> appends each of the returned
  pairs \<open>(k, i)\<close> with \<open>k\<close> other than \<open>j\<close> to the queue and goes on.
\<close>

theorem neighboring_arcs_are_outgoing_reversed:
  assumes "distinct (map fst (constraints self))"
    and "getitem (constraints self) i = Inr row"
  shows "\<exists>arcs. get_all_neighboring_arcs self i = Inr arcs
     \<and> set arcs = {(k, i) |k. (i, k) \<in> set (get_all_arcs self)}
     \<and> ((\<forall>k. (i, k) \<in> set (get_all_arcs self) \<longleftrightarrow> (k, i) \<in> set (get_all_arcs self))
          \<longrightarrow> set arcs = {(k, i) |k. (k, i) \<in> set (get_all_arcs self)})
     \<and> (revise self a i j = Inr (r, a') \<and> a' \<noteq> a \<longrightarrow>
          inference (Suc n) self a (q @ [(i, j)])
            = inference n self a' (q @ filter (\<lambda>(k, u). k \<noteq> j) arcs))"
proof -
  let ?arcs = "map (\<lambda>(k, t). (k, i)) row"
  have nb: "get_all_neighboring_arcs self i = Inr ?arcs"
    using assms(2) by (simp add: get_all_neighboring_arcs_def)
  have "set ?arcs = (\<lambda>k. (k, i)) ` fst ` set row"
    by force
  also have "\<dots> = {(k, i) |k. (i, k) \<in> set (get_all_arcs self)}"
    using arcs_of_row[OF assms] by blast
  finally have st: "set ?arcs = {(k, i) |k. (i, k) \<in> set (get_all_arcs self)}" .
  have sym: "set ?arcs = {(k, i) |k. (k, i) \<in> set (get_all_arcs self)}"
    if "\<forall>k. (i, k) \<in> set (get_all_arcs self) \<longleftrightarrow> (k, i) \<in> set (get_all_arcs self)"
    unfolding st using that by simp
  have same: "map (\<lambda>(k, u). (k, i)) (filter (\<lambda>(k, u). k \<noteq> j) ?arcs)
      = filter (\<lambda>(k, u). k \<noteq> j) ?arcs"
    by (induction row) auto
  have step: "inference (Suc n) self a (q @ [(i, j)])
       = inference n self a' (q @ filter (\<lambda>(k, u). k \<noteq> j) ?arcs)"
    if rv: "revise self a i j = Inr (r, a') \<and> a' \<noteq> a"
  proof -
    from rv have rv1: "revise self a i j = Inr (r, a')" and ne: "a' \<noteq> a" by simp_all
    from revise_changed[OF rv1 ne] obtain xs' where r: r and g: "getitem a' i = Inr (DList xs')"
      and x: "xs' \<noteq> []" by auto
    have "inference (Suc n) self a (q @ [(i, j)])
       = inference n self a'
           (q @ map (\<lambda>(k, u). (k, i)) (filter (\<lambda>(k, u). k \<noteq> j) ?arcs))"
      using rv1 r g x nb by simp
    then show ?thesis by (simp only: same)
  qed
  show ?thesis
  proof (rule exI[of _ ?arcs], intro conjI impI)
    show "get_all_neighboring_arcs self i = Inr ?arcs" by (rule nb)
    show "set ?arcs = {(k, i) |k. (i, k) \<in> set (get_all_arcs self)}" by (rule st)
  next
    assume "\<forall>k. (i, k) \<in> set (get_all_arcs self) \<longleftrightarrow> (k, i) \<in> set (get_all_arcs self)"
    then show "set ?arcs = {(k, i) |k. (k, i) \<in> set (get_all_arcs self)}" by (rule sym)
  next
    assume "revise self a i j = Inr (r, a') \<and> a' \<noteq> a"
    then show "inference (Suc n) self a (q @ [(i, j)])
       = inference n self a' (q @ filter (\<lambda>(k, u). k \<noteq> j) ?arcs)" by (rule step)
  qed
qed

lemma dup_row_distinct: "distinct (map fst (constraints dup_row))"
  by code_simp

lemma dup_row_row:
  "getitem (constraints dup_row) ''z''
     = Inr [(''x'', [(VStr ''2'', VStr ''1'')]), (''y'', [(VStr ''2'', VStr ''1'')])]"
  by code_simp

lemma dup_row_neighbors:
  "get_all_neighboring_arcs dup_row ''z'' = Inr [(''x'', ''z''), (''y'', ''z'')]"
  by code_simp

lemma dup_row_revise:
  "revise dup_row (initial_assignment dup_row) ''z'' ''y'' = Inr (True, dup_row_solution)"
  by code_simp

lemma dup_row_changed: "dup_row_solution \<noteq> initial_assignment dup_row"
  by code_simp

theorem neighboring_arcs_are_outgoing_reversed_witness:
  "get_all_neighboring_arcs dup_row ''z'' = Inr [(''x'', ''z''), (''y'', ''z'')]
   \<and> revise dup_row (initial_assignment dup_row) ''z'' ''y'' = Inr (True, dup_row_solution)
   \<and> inference (Suc 9) dup_row (initial_assignment dup_row)
         ([(''x'', ''y''), (''x'', ''z''), (''y'', ''x''), (''y'', ''z''), (''z'', ''x'')]
            @ [(''z'', ''y'')])
       = inference 9 dup_row dup_row_solution
           ([(''x'', ''y''), (''x'', ''z''), (''y'', ''x''), (''y'', ''z''), (''z'', ''x'')]
              @ [(''x'', ''z'')])"
proof -
  from neighboring_arcs_are_outgoing_reversed[OF dup_row_distinct dup_row_row,
      of "initial_assignment dup_row" "''y''" True dup_row_solution 9
        "[(''x'', ''y''), (''x'', ''z''), (''y'', ''x''), (''y'', ''z''), (''z'', ''x'')]"]
  obtain arcs where a: "get_all_neighboring_arcs dup_row ''z'' = Inr arcs"
    and s: "revise dup_row (initial_assignment dup_row) ''z'' ''y'' = Inr (True, dup_row_solution)
          \<and> dup_row_solution \<noteq> initial_assignment dup_row \<longrightarrow>
        inference (Suc 9) dup_row (initial_assignment dup_row)
         ([(''x'', ''y''), (''x'', ''z''), (''y'', ''x''), (''y'', ''z''), (''z'', ''x'')]
            @ [(''z'', ''y'')])
       = inference 9 dup_row dup_row_solution
           ([(''x'', ''y''), (''x'', ''z''), (''y'', ''x''), (''y'', ''z''), (''z'', ''x'')]
              @ filter (\<lambda>(k, u). k \<noteq> ''y'') arcs)"
    by blast
  from a dup_row_neighbors have "arcs = [(''x'', ''z''), (''y'', ''z'')]" by simp
  with s dup_row_revise dup_row_changed dup_row_neighbors show ?thesis by simp
qed

text \<open>
  The claim as stated fails when a constraint was added one way only, from \<open>a\<close> to
  \<open>b\<close>: the only arc is \<open>(a, b)\<close>; for \<open>b\<close> the function returns nothing, and for
  \<open>a\<close> it returns \<open>(b, a)\<close>, which has no table.
\<close>

theorem neighboring_arcs_miss_incoming:
  "one_way_build = Inr one_way_csp
   \<and> get_all_arcs one_way_csp = [(''a'', ''b'')]
   \<and> get_all_neighboring_arcs one_way_csp ''b'' = Inr []
   \<and> get_all_neighboring_arcs one_way_csp ''a'' = Inr [(''b'', ''a'')]"
  by code_simp

subsection \<open>Minimum remaining values\<close>

text \<open>Python's \<open>min\<close> returns the first item whose key is minimal.\<close>

lemma py_min_first:
  assumes "\<forall>x\<in>set xs. key x = Inr (f x)"
  shows "\<exists>pre post m. py_min key b (f b) xs = Inr m \<and> b # xs = pre @ m # post
     \<and> (\<forall>u\<in>set pre. f m < f u) \<and> (\<forall>u\<in>set post. f m \<le> f u)"
  using assms
proof (induction xs arbitrary: b)
  case Nil
  show ?case by (rule exI[of _ "[]"], rule exI[of _ "[]"]) simp
next
  case (Cons x xs)
  then have kx: "key x = Inr (f x)" and rest: "\<forall>y\<in>set xs. key y = Inr (f y)" by simp_all
  show ?case
  proof (cases "f x < f b")
    case True
    from Cons.IH[OF rest, of x] obtain pre post m where
      m: "py_min key x (f x) xs = Inr m" "x # xs = pre @ m # post"
      "\<forall>u\<in>set pre. f m < f u" "\<forall>u\<in>set post. f m \<le> f u" by blast
    have "f m \<le> f x"
    proof (cases pre)
      case Nil
      with m(2) show ?thesis by simp
    next
      case (Cons p ps)
      with m(2) have "x \<in> set pre" by simp
      with m(3) show ?thesis by auto
    qed
    with True have mb: "f m < f b" by simp
    have e: "py_min key b (f b) (x # xs) = Inr m"
      using kx True m(1) by simp
    have s: "b # x # xs = (b # pre) @ m # post"
      using m(2) by simp
    have "\<forall>u\<in>set (b # pre). f m < f u"
      using m(3) mb by simp
    with e s m(4) show ?thesis by blast
  next
    case False
    from Cons.IH[OF rest, of b] obtain pre post m where
      m: "py_min key b (f b) xs = Inr m" "b # xs = pre @ m # post"
      "\<forall>u\<in>set pre. f m < f u" "\<forall>u\<in>set post. f m \<le> f u" by blast
    have e: "py_min key b (f b) (x # xs) = Inr m"
      using kx False m(1) by simp
    show ?thesis
    proof (cases pre)
      case Nil
      with m(2) have mb: "m = b" "post = xs" by simp_all
      have s: "b # x # xs = [] @ m # (x # xs)"
        using mb by simp
      have "\<forall>u\<in>set (x # xs). f m \<le> f u"
        using m(4) mb False by auto
      with e s show ?thesis by (metis empty_iff empty_set)
    next
      case (Cons p ps)
      with m(2) have p: "p = b" "xs = ps @ m # post" by simp_all
      with m(3) Cons have "f m < f b" by simp
      with False have mx: "f m < f x" by simp
      have s: "b # x # xs = (b # x # ps) @ m # post"
        using p by simp
      have "\<forall>u\<in>set (b # x # ps). f m < f u"
        using m(3) Cons p mx by simp
      with e s m(4) show ?thesis by blast
    qed
  qed
qed

text \<open>The key of \<open>select_unassigned_variable\<close>, as a function of the domain size.\<close>

lemma mrv_key_size:
  assumes "\<forall>d\<in>snd ` set a. is_seq d" and "v \<in> fst ` set a"
  shows "mrv_key a v = Inr (if dom_size a v < 2 then \<infinity> else enat (dom_size a v))"
proof -
  from assms(2) obtain d where d: "map_of a v = Some d"
    by (metis domD dom_map_of_conv_image_fst)
  then have "(v, d) \<in> set a" by (rule map_of_SomeD)
  with assms(1) have "is_seq d" by force
  then obtain n where "py_len d = Inr n"
    by (cases d rule: py_len.cases) (simp_all add: is_seq_def)
  with d show ?thesis by (simp add: mrv_key_def dom_size_def getitem_def)
qed

text \<open>
  Claim C8. In an assignment whose domains are lists or strings and where some variable
  has two or more values, \<open>select_unassigned_variable\<close> returns a variable \<open>v\<close> of
  size at least two such that every earlier variable of size at least two is strictly
  larger and every later one is at least as large: the smallest undecided domain, the
  first in insertion order among equals. Variables of size one (and zero) never win.
\<close>

theorem select_minimum_remaining_values:
  assumes "\<forall>d\<in>snd ` set a. is_seq d"
    and "\<exists>u\<in>fst ` set a. 2 \<le> dom_size a u"
  shows "\<exists>v pre post. select_unassigned_variable a = Inr v
     \<and> map fst a = pre @ v # post
     \<and> 2 \<le> dom_size a v
     \<and> (\<forall>u\<in>set pre. 2 \<le> dom_size a u \<longrightarrow> dom_size a v < dom_size a u)
     \<and> (\<forall>u\<in>set post. 2 \<le> dom_size a u \<longrightarrow> dom_size a v \<le> dom_size a u)"
proof -
  define f where "f u = (if dom_size a u < 2 then \<infinity> else enat (dom_size a u))" for u
  have key: "mrv_key a u = Inr (f u)" if "u \<in> fst ` set a" for u
    using mrv_key_size[OF assms(1) that] by (simp add: f_def)
  from assms(2) obtain b bs where keys: "map fst a = b # bs"
    by (cases "map fst a") auto
  then have mem: "set (b # bs) = fst ` set a" by (metis set_map)
  then have "\<forall>x\<in>set bs. mrv_key a x = Inr (f x)" using key by auto
  from py_min_first[OF this, of b] obtain pre post m where
    m: "py_min (mrv_key a) b (f b) bs = Inr m" "b # bs = pre @ m # post"
    "\<forall>u\<in>set pre. f m < f u" "\<forall>u\<in>set post. f m \<le> f u" by blast
  from mem key have "mrv_key a b = Inr (f b)" by auto
  with keys m(1) have sel: "select_unassigned_variable a = Inr m"
    by (simp add: select_unassigned_variable_def)
  from assms(2) obtain u where u: "u \<in> fst ` set a" "2 \<le> dom_size a u" by blast
  then have fu: "f u = enat (dom_size a u)" by (simp add: f_def)
  from u(1) mem m(2) have "u \<in> set pre \<or> u = m \<or> u \<in> set post" by auto
  with m(3,4) have "f m \<le> f u" by auto
  with fu obtain n where "f m = enat n" using enat_ile by metis
  then have "f m \<noteq> \<infinity>" by simp
  then have big: "2 \<le> dom_size a m" and fm: "f m = enat (dom_size a m)"
    by (auto simp: f_def split: if_splits)
  have "\<forall>u\<in>set pre. 2 \<le> dom_size a u \<longrightarrow> dom_size a m < dom_size a u"
    using m(3) fm by (auto simp: f_def split: if_splits)
  moreover have "\<forall>u\<in>set post. 2 \<le> dom_size a u \<longrightarrow> dom_size a m \<le> dom_size a u"
    using m(4) fm by (auto simp: f_def split: if_splits)
  ultimately show ?thesis using sel keys m(2) big by auto
qed

lemma mixed_sizes_select: "select_unassigned_variable mixed_sizes = Inr ''q''"
  by code_simp

lemma mixed_sizes_seq: "\<forall>d\<in>snd ` set mixed_sizes. is_seq d"
  by (simp add: mixed_sizes_def is_seq_def)

lemma mixed_sizes_sizes:
  "dom_size mixed_sizes ''p'' = 3" "dom_size mixed_sizes ''q'' = 2"
  "dom_size mixed_sizes ''r'' = 1" "dom_size mixed_sizes ''s'' = 2"
  by (simp_all add: mixed_sizes_def dom_size_def getitem_def)

theorem select_minimum_remaining_values_witness:
  "select_unassigned_variable mixed_sizes = Inr ''q''
   \<and> map fst mixed_sizes = [''p''] @ ''q'' # [''r'', ''s'']
   \<and> dom_size mixed_sizes ''q'' = 2
   \<and> dom_size mixed_sizes ''s'' = 2
   \<and> (\<exists>v pre post. select_unassigned_variable mixed_sizes = Inr v
        \<and> map fst mixed_sizes = pre @ v # post \<and> 2 \<le> dom_size mixed_sizes v)"
proof -
  have ex: "\<exists>u\<in>fst ` set mixed_sizes. 2 \<le> dom_size mixed_sizes u"
    using mixed_sizes_sizes(2) by (auto simp: mixed_sizes_def)
  from select_minimum_remaining_values[OF mixed_sizes_seq ex]
  have "\<exists>v pre post. select_unassigned_variable mixed_sizes = Inr v
        \<and> map fst mixed_sizes = pre @ v # post \<and> 2 \<le> dom_size mixed_sizes v"
    by blast
  with mixed_sizes_select mixed_sizes_sizes show ?thesis
    by (simp add: mixed_sizes_def)
qed

end
